theory Spec2Isabelle
  imports Main "HOL-Library.Word" "HOL-Library.AList" "HOL-Library.Char_ord"
    "HOL-Library.List_Lexorder"
begin

section \<open>Chunked file encryption (app/auth/secruity.py)\<close>

text \<open>
  A file is the list of its bytes. The AES-GCM object \<open>self.aesgcm = AESGCM(key)\<close> of the
  \<open>cryptography\<close> package is not part of the repository: it is a parameter, a record of
  its two methods with the key already bound. \<open>gcm_encrypt g nonce data\<close> is
  \<open>aesgcm.encrypt(nonce, data, None)\<close>, the ciphertext followed by the 16-byte tag;
  \<open>gcm_decrypt g nonce data\<close> is \<open>aesgcm.decrypt(nonce, data, None)\<close>, where \<open>None\<close>
  stands for the exception the library raises when authentication fails.
\<close>

type_synonym byte = "8 word"
type_synonym bytes = "byte list"

record aesgcm =
  gcm_encrypt :: "bytes \<Rightarrow> bytes \<Rightarrow> bytes"
  gcm_decrypt :: "bytes \<Rightarrow> bytes \<Rightarrow> bytes option"

datatype crypto_error = InvalidTag

text \<open>\<open>config/constraints.py\<close>: \<open>ENCRYPTION_BUFFER: int = 50\<close>; the default chunk size of
  both methods is \<open>PI_ZERO_LIMITS.ENCRYPTION_BUFFER * 1024\<close>.\<close>

definition ENCRYPTION_BUFFER :: int where
  "ENCRYPTION_BUFFER = 50"

definition default_chunk_size :: int where
  "default_chunk_size = ENCRYPTION_BUFFER * 1024"

text \<open>\<open>infile.read(n)\<close> on the bytes that are left: at most \<open>n\<close> bytes, and all of
  them when \<open>n\<close> is negative.\<close>

definition file_read :: "int \<Rightarrow> bytes \<Rightarrow> bytes" where
  "file_read n rest = (if n < 0 then rest else take (nat n) rest)"

text \<open>The chunks the read loop of both methods sees: \<open>chunk = infile.read(n)\<close> until
  the read returns nothing.\<close>

function read_chunks :: "int \<Rightarrow> bytes \<Rightarrow> bytes list" where
  "read_chunks n rest =
     (let chunk = file_read n rest in
      if chunk = [] then [] else chunk # read_chunks n (drop (length chunk) rest))"
  by pat_completeness auto
termination
  by (relation "measure (\<lambda>(n, rest). length rest)")
     (auto simp: file_read_def split: if_splits)

text \<open>
  The loop of \<open>encrypt_file\<close>. The state is what is left of the input, the bytes written to
  the output so far, and the calls made to \<open>aesgcm.encrypt\<close> so far, each recorded as the
  pair (nonce, plaintext) it was given.
\<close>

function encrypt_loop ::
  "aesgcm \<Rightarrow> bytes \<Rightarrow> int \<Rightarrow> bytes \<Rightarrow> bytes \<Rightarrow> (bytes \<times> bytes) list
    \<Rightarrow> bytes \<times> (bytes \<times> bytes) list" where
  "encrypt_loop g nonce chunk_size rest out seals =
     (let chunk = file_read chunk_size rest in
      if chunk = [] then (out, seals)
      else
        let ciphertext = gcm_encrypt g nonce chunk in
        encrypt_loop g nonce chunk_size (drop (length chunk) rest)
          (out @ ciphertext) (seals @ [(nonce, chunk)]))"
  by pat_completeness auto
termination
  by (relation "measure (\<lambda>(g, nonce, chunk_size, rest, out, seals). length rest)")
     (auto simp: file_read_def split: if_splits)

text \<open>\<open>encrypt_file\<close>: \<open>nonce\<close> is the value \<open>os.urandom(12)\<close> returned. The result is the
  content of the output file and the calls made to \<open>aesgcm.encrypt\<close>; the method returns
  the output path and the nonce.\<close>

definition encrypt_file ::
  "aesgcm \<Rightarrow> bytes \<Rightarrow> int \<Rightarrow> bytes \<Rightarrow> bytes \<times> (bytes \<times> bytes) list" where
  "encrypt_file g nonce chunk_size infile = encrypt_loop g nonce chunk_size infile nonce []"

text \<open>
  The loop of \<open>decrypt_file\<close>. An exception of \<open>aesgcm.decrypt\<close> leaves the loop at once:
  the output keeps what was written before, and nothing more is read. \<open>attempted\<close>
  records the chunks handed to \<open>aesgcm.decrypt\<close>.
\<close>

record decrypt_run =
  status :: "crypto_error + unit"
  written :: bytes
  attempted :: "bytes list"

function decrypt_loop ::
  "aesgcm \<Rightarrow> bytes \<Rightarrow> int \<Rightarrow> bytes \<Rightarrow> bytes \<Rightarrow> bytes list \<Rightarrow> decrypt_run" where
  "decrypt_loop g nonce chunk_size rest out tried =
     (let chunk = file_read (chunk_size + 16) rest in
      if chunk = [] then \<lparr>status = Inr (), written = out, attempted = tried\<rparr>
      else
        case gcm_decrypt g nonce chunk of
          None \<Rightarrow> \<lparr>status = Inl InvalidTag, written = out, attempted = tried @ [chunk]\<rparr>
        | Some plaintext \<Rightarrow>
            decrypt_loop g nonce chunk_size (drop (length chunk) rest)
              (out @ plaintext) (tried @ [chunk]))"
  by pat_completeness auto
termination
  by (relation "measure (\<lambda>(g, nonce, chunk_size, rest, out, tried). length rest)")
     (auto simp: file_read_def split: if_splits)

definition decrypt_file :: "aesgcm \<Rightarrow> int \<Rightarrow> bytes \<Rightarrow> decrypt_run" where
  "decrypt_file g chunk_size infile =
     (let nonce = file_read 12 infile in
      decrypt_loop g nonce chunk_size (drop (length nonce) infile) [] [])"

text \<open>
  \<open>DocumentProcessor._encrypt_document\<close> (app/documents/processing.py), on the contents
  of the files: the converted image goes through \<open>encrypt_file\<close> with the default chunk
  size, and the OCR text is sealed by a direct call of \<open>encryptor.aesgcm.encrypt\<close> with
  the nonce \<open>encrypt_file\<close> returned. \<open>seal_log\<close> lists every call of
  \<open>aesgcm.encrypt\<close> made for the artifact, in order.
\<close>

record encrypted_data =
  encrypted_image :: bytes
  encrypted_text :: bytes
  enc_nonce :: bytes
  seal_log :: "(bytes \<times> bytes) list"

definition encrypt_document :: "aesgcm \<Rightarrow> bytes \<Rightarrow> bytes \<Rightarrow> bytes \<Rightarrow> encrypted_data" where
  "encrypt_document g nonce img ocr_text =
     (let (image_out, seals) = encrypt_file g nonce default_chunk_size img;
          text_out = gcm_encrypt g nonce ocr_text
      in \<lparr>encrypted_image = image_out, encrypted_text = text_out, enc_nonce = nonce,
          seal_log = seals @ [(nonce, ocr_text)]\<rparr>)"

text \<open>What the library promises of AES-GCM under one key: decryption undoes encryption
  under the same nonce, and the tag adds 16 bytes.\<close>

definition aead_correct :: "aesgcm \<Rightarrow> bool" where
  "aead_correct g \<longleftrightarrow>
     (\<forall>nonce data. gcm_decrypt g nonce (gcm_encrypt g nonce data) = Some data) \<and>
     (\<forall>nonce data. length (gcm_encrypt g nonce data) = length data + 16)"

text \<open>A stand-in cipher for concrete runs: the ciphertext is the plaintext with every byte
  XORed with the first byte of the nonce, the tag is sixteen copies of the byte 0xA5.\<close>

definition toy_tag :: bytes where
  "toy_tag = replicate 16 0xA5"

definition toy_mask :: "bytes \<Rightarrow> byte" where
  "toy_mask nonce = (case nonce of [] \<Rightarrow> 0 | b # _ \<Rightarrow> b)"

definition toy_gcm :: aesgcm where
  "toy_gcm = \<lparr>
     gcm_encrypt = (\<lambda>nonce data. map (\<lambda>b. xor b (toy_mask nonce)) data @ toy_tag),
     gcm_decrypt = (\<lambda>nonce data.
       if 16 \<le> length data \<and> drop (length data - 16) data = toy_tag
       then Some (map (\<lambda>b. xor b (toy_mask nonce)) (take (length data - 16) data))
       else None)\<rparr>"

definition toy_nonce :: bytes where
  "toy_nonce = [7, 1, 2, 3, 4, 5, 6, 7, 8, 9, 10, 11]"

subsection \<open>Properties of the cipher\<close>

declare read_chunks.simps [simp del] encrypt_loop.simps [simp del] decrypt_loop.simps [simp del]

lemma file_read_drop: "file_read n rest @ drop (length (file_read n rest)) rest = rest"
  by (cases "length rest \<le> nat n") (auto simp: file_read_def min_def)

lemma read_chunks_Nil: "n \<noteq> 0 \<Longrightarrow> read_chunks n [] = []"
  by (simp add: read_chunks.simps [of n "[]"] file_read_def)

lemma read_chunks_nonempty: "n \<noteq> 0 \<Longrightarrow> rest \<noteq> [] \<Longrightarrow> read_chunks n rest \<noteq> []"
  by (auto simp: read_chunks.simps [of n rest] file_read_def Let_def)

lemma encrypt_loop_chunks:
  "encrypt_loop g nonce n rest out seals =
     (out @ concat (map (gcm_encrypt g nonce) (read_chunks n rest)),
      seals @ map (Pair nonce) (read_chunks n rest))"
proof (induction g nonce n rest out seals rule: encrypt_loop.induct)
  case (1 g nonce n rest out seals)
  show ?case
  proof (cases "file_read n rest = []")
    case True
    then show ?thesis
      by (simp add: encrypt_loop.simps [of g nonce n rest] read_chunks.simps [of n rest])
  next
    case False
    from "1.IH" [OF refl False refl] False show ?thesis
      by (simp add: encrypt_loop.simps [of g nonce n rest] read_chunks.simps [of n rest] Let_def)
  qed
qed

lemma decrypt_loop_sealed:
  assumes ok: "aead_correct g"
  shows "0 < n \<Longrightarrow>
     decrypt_loop g nonce n (concat (map (gcm_encrypt g nonce) (read_chunks n rest))) out tried =
     \<lparr>status = Inr (), written = out @ rest,
      attempted = tried @ map (gcm_encrypt g nonce) (read_chunks n rest)\<rparr>"
proof (induction n rest arbitrary: out tried rule: read_chunks.induct)
  case (1 n rest)
  let ?E = "gcm_encrypt g nonce"
  let ?c = "file_read n rest"
  let ?rest' = "drop (length ?c) rest"
  let ?X = "concat (map ?E (read_chunks n ?rest'))"
  from "1.prems" have pos: "0 < n" .
  show ?case
  proof (cases "?c = []")
    case True
    with pos have "rest = []" by (auto simp: file_read_def split: if_splits)
    with pos show ?thesis
      by (simp add: read_chunks_Nil decrypt_loop.simps [of g nonce n "[]"] file_read_def)
  next
    case False
    have rc: "read_chunks n rest = ?c # read_chunks n ?rest'"
      using False by (simp add: read_chunks.simps [of n rest] Let_def)
    have lenE: "length (?E ?c) = length ?c + 16"
      using ok by (simp add: aead_correct_def)
    have dec: "gcm_decrypt g nonce (?E ?c) = Some ?c"
      using ok by (simp add: aead_correct_def)
    have rd: "file_read (n + 16) (?E ?c @ ?X) = ?E ?c"
    proof (cases "length ?c = nat n")
      case True
      with pos lenE have "nat (n + 16) = length (?E ?c)" by simp
      with pos show ?thesis by (simp add: file_read_def)
    next
      case short: False
      with pos have "length rest < nat n" "?c = rest"
        by (auto simp: file_read_def split: if_splits)
      then have "?rest' = []" by simp
      with pos have "?X = []" by (simp add: read_chunks_Nil)
      moreover have "length (?E ?c) \<le> nat (n + 16)"
        using lenE pos \<open>length rest < nat n\<close> \<open>?c = rest\<close> by simp
      ultimately show ?thesis using pos by (simp add: file_read_def)
    qed
    have ne: "?E ?c \<noteq> []" using lenE by auto
    have step: "decrypt_loop g nonce n (?E ?c @ ?X) out tried =
        decrypt_loop g nonce n ?X (out @ ?c) (tried @ [?E ?c])"
      using rd ne dec by (simp add: decrypt_loop.simps [of g nonce n "?E ?c @ ?X"] Let_def)
    have "out @ ?c @ ?rest' = out @ rest" by (simp add: file_read_drop)
    with "1.IH" [OF refl False pos, of "out @ ?c" "tried @ [?E ?c]"] step rc
    show ?thesis by simp
  qed
qed

lemma toy_gcm_correct: "aead_correct toy_gcm"
  by (simp add: aead_correct_def toy_gcm_def toy_tag_def comp_def xor.assoc)

lemma encrypt_file_toy_example:
  "fst (encrypt_file toy_gcm toy_nonce 2 [1, 2, 3, 4, 5]) =
     toy_nonce @ [6, 5] @ toy_tag @ [4, 3] @ toy_tag @ [2] @ toy_tag"
  by (simp add: encrypt_file_def encrypt_loop.simps file_read_def toy_gcm_def toy_mask_def
      toy_nonce_def Let_def)

text \<open>
  Claim C3. With a correct AES-GCM, a positive chunk size and the 12-byte nonce of
  \<open>os.urandom(12)\<close>, \<open>decrypt_file\<close> ends without error on the file \<open>encrypt_file\<close>
  wrote and writes exactly the original plaintext. The plaintext is arbitrary: empty, one
  byte, exactly one chunk, several chunks and a partial last one.
\<close>

theorem encrypt_decrypt_roundtrip:
  assumes "aead_correct g" and "0 < chunk_size" and "length nonce = 12"
  shows "status (decrypt_file g chunk_size (fst (encrypt_file g nonce chunk_size plaintext))) = Inr ()
       \<and> written (decrypt_file g chunk_size (fst (encrypt_file g nonce chunk_size plaintext))) = plaintext"
  using assms(3) decrypt_loop_sealed [OF assms(1,2), of nonce plaintext "[]" "[]"]
  by (simp add: decrypt_file_def encrypt_file_def encrypt_loop_chunks file_read_def)

theorem encrypt_decrypt_roundtrip_witness:
  "aead_correct toy_gcm \<and> (0::int) < 2 \<and> length toy_nonce = 12
   \<and> status (decrypt_file toy_gcm 2 (fst (encrypt_file toy_gcm toy_nonce 2 [1, 2, 3, 4, 5]))) = Inr ()
   \<and> written (decrypt_file toy_gcm 2 (fst (encrypt_file toy_gcm toy_nonce 2 [1, 2, 3, 4, 5])))
       = [1, 2, 3, 4, 5]"
proof -
  have n: "length toy_nonce = 12" by (simp add: toy_nonce_def)
  show ?thesis
    using encrypt_decrypt_roundtrip [OF toy_gcm_correct _ n, of 2 "[1, 2, 3, 4, 5]"] n toy_gcm_correct
    by simp
qed

lemma decrypt_loop_prefix:
  assumes "0 < n"
    and "list_all2 (\<lambda>c p. length c = nat (n + 16) \<and> gcm_decrypt g nonce c = Some p) cs ps"
  shows "decrypt_loop g nonce n (concat cs @ tail) out tried =
         decrypt_loop g nonce n tail (out @ concat ps) (tried @ cs)"
  using assms(2)
proof (induction cs ps arbitrary: out tried rule: list_all2_induct)
  case Nil
  then show ?case by simp
next
  case (Cons c cs p ps)
  from Cons.hyps(1) assms(1) have rd: "file_read (n + 16) (c @ concat cs @ tail) = c" and ne: "c \<noteq> []"
    by (auto simp: file_read_def)
  from Cons.hyps(1) have dec: "gcm_decrypt g nonce c = Some p" by simp
  have "decrypt_loop g nonce n (c @ concat cs @ tail) out tried =
        decrypt_loop g nonce n (concat cs @ tail) (out @ p) (tried @ [c])"
    using rd ne dec by (simp add: decrypt_loop.simps [of g nonce n "c @ concat cs @ tail"] Let_def)
  with Cons.IH [of "out @ p" "tried @ [c]"] show ?case by simp
qed

text \<open>
  Claim C5. The input is the nonce, then \<open>k\<close> full chunks \<open>cs\<close> that authenticate and
  decrypt to \<open>ps\<close>, then a non-empty rest whose first chunk (chunk \<open>k\<close>) fails
  authentication. \<open>decrypt_file\<close> then fails with the library's error, the output holds
  the plaintext of the chunks before \<open>k\<close> and nothing else, and the chunks handed to
  \<open>aesgcm.decrypt\<close> are those up to chunk \<open>k\<close>: no later chunk is tried.
\<close>

theorem decrypt_file_fails_closed:
  assumes "0 < chunk_size" and "length nonce = 12"
    and "list_all2 (\<lambda>c p. length c = nat (chunk_size + 16) \<and> gcm_decrypt g nonce c = Some p) cs ps"
    and "tail \<noteq> []"
    and "gcm_decrypt g nonce (file_read (chunk_size + 16) tail) = None"
  shows "decrypt_file g chunk_size (nonce @ concat cs @ tail) =
     \<lparr>status = Inl InvalidTag, written = concat ps,
      attempted = cs @ [file_read (chunk_size + 16) tail]\<rparr>"
proof -
  have bad: "file_read (chunk_size + 16) tail \<noteq> []"
    using assms(1,4) by (auto simp: file_read_def)
  have "decrypt_loop g nonce chunk_size tail (concat ps) cs =
     \<lparr>status = Inl InvalidTag, written = concat ps,
      attempted = cs @ [file_read (chunk_size + 16) tail]\<rparr>"
    using bad assms(5) by (simp add: decrypt_loop.simps [of g nonce chunk_size tail] Let_def)
  with decrypt_loop_prefix [OF assms(1,3), of tail "[]" "[]"] assms(2)
  show ?thesis by (simp add: decrypt_file_def file_read_def)
qed

theorem decrypt_file_fails_closed_witness:
  "(0::int) < 2 \<and> length toy_nonce = 12
   \<and> list_all2 (\<lambda>c p. length c = nat (2 + 16) \<and> gcm_decrypt toy_gcm toy_nonce c = Some p)
        [[6, 5] @ toy_tag] [[1, 2]]
   \<and> ([4, 3] @ replicate 16 0 @ [2] @ toy_tag) \<noteq> []
   \<and> gcm_decrypt toy_gcm toy_nonce (file_read (2 + 16) ([4, 3] @ replicate 16 0 @ [2] @ toy_tag)) = None
   \<and> decrypt_file toy_gcm 2 (toy_nonce @ concat [[6, 5] @ toy_tag] @ ([4, 3] @ replicate 16 0 @ [2] @ toy_tag)) =
     \<lparr>status = Inl InvalidTag, written = [1, 2],
      attempted = [[6, 5] @ toy_tag, [4, 3] @ replicate 16 0]\<rparr>"
proof -
  have a: "length toy_nonce = 12" by (simp add: toy_nonce_def)
  have b: "list_all2 (\<lambda>c p. length c = nat (2 + 16) \<and> gcm_decrypt toy_gcm toy_nonce c = Some p)
        [[6, 5] @ toy_tag] [[1, 2]]"
    by (simp add: toy_gcm_def toy_tag_def toy_mask_def toy_nonce_def)
  have c: "([4, 3] @ replicate 16 0 @ [2] @ toy_tag) \<noteq> []" by simp
  have d: "gcm_decrypt toy_gcm toy_nonce (file_read (2 + 16) ([4, 3] @ replicate 16 0 @ [2] @ toy_tag)) = None"
    by (simp add: toy_gcm_def toy_tag_def file_read_def)
  have e: "file_read (2 + 16) ([4, 3] @ replicate 16 0 @ [2] @ toy_tag) = [4, 3] @ replicate 16 0"
    by (simp add: file_read_def)
  show ?thesis
    using decrypt_file_fails_closed [OF _ a b c d] a b c d e by simp
qed

text \<open>
  Claim C1 asks for a distinct nonce at every seal of one artifact. The code draws one
  nonce in \<open>encrypt_file\<close> and passes it to every call of \<open>aesgcm.encrypt\<close>: for every
  non-empty converted file the seals of the artifact (the file's chunks, then the OCR text)
  all carry that one nonce, there are at least two of them, and so the nonces of the seal
  log are not distinct.
\<close>

theorem encrypt_document_reuses_nonce:
  "img \<noteq> [] \<Longrightarrow>
     set (map fst (seal_log (encrypt_document g nonce img ocr_text))) = {nonce}
   \<and> 2 \<le> length (seal_log (encrypt_document g nonce img ocr_text))
   \<and> \<not> distinct (map fst (seal_log (encrypt_document g nonce img ocr_text)))"
proof -
  assume ne: "img \<noteq> []"
  let ?cs = "read_chunks default_chunk_size img"
  have log: "map fst (seal_log (encrypt_document g nonce img ocr_text)) = replicate (length ?cs + 1) nonce"
    by (simp add: encrypt_document_def encrypt_file_def encrypt_loop_chunks comp_def map_replicate_const replicate_append_same)
  have "?cs \<noteq> []"
    using ne by (intro read_chunks_nonempty) (simp_all add: default_chunk_size_def ENCRYPTION_BUFFER_def)
  then obtain k where k: "length ?cs + 1 = Suc (Suc k)"
    by (cases ?cs) auto
  have len: "length (seal_log (encrypt_document g nonce img ocr_text)) = length ?cs + 1"
    by (simp add: encrypt_document_def encrypt_file_def encrypt_loop_chunks)
  show ?thesis
    unfolding log len k by (auto simp: in_set_replicate)
qed

theorem encrypt_document_reuses_nonce_witness:
  "[0x41] \<noteq> ([] :: bytes)
   \<and> map fst (seal_log (encrypt_document toy_gcm toy_nonce [0x41] [0x78])) = [toy_nonce, toy_nonce]
   \<and> \<not> distinct (map fst (seal_log (encrypt_document toy_gcm toy_nonce [0x41] [0x78])))"
proof -
  have a: "[0x41] \<noteq> ([] :: bytes)" by simp
  have b: "map fst (seal_log (encrypt_document toy_gcm toy_nonce [0x41] [0x78])) = [toy_nonce, toy_nonce]"
    by (simp add: encrypt_document_def encrypt_file_def encrypt_loop.simps file_read_def
        default_chunk_size_def ENCRYPTION_BUFFER_def Let_def)
  show ?thesis
    using encrypt_document_reuses_nonce [OF a, of toy_gcm toy_nonce "[0x78]"] a b by simp
qed

end
